theory Spec2Isabelle
  imports Main
begin

section \<open>Python values, exceptions and string helpers\<close>

text \<open>
  The pipeline works on Python dictionaries with string keys. A message
  (\<^verbatim>\<open>Dict[str, str]\<close>) and a retrieved context entry are modelled as partial maps
  from keys to strings; subscripting a missing key raises \<^verbatim>\<open>KeyError\<close>.
  An exception is a value; \<open>str_exn\<close> is Python's \<^verbatim>\<open>str(e)\<close>, which for a
  \<^verbatim>\<open>KeyError\<close> is the quoted key.
\<close>

datatype exn = KeyError string | Exception string

fun str_exn :: "exn \<Rightarrow> string" where
  "str_exn (KeyError k) = [CHR 0x27] @ k @ [CHR 0x27]"
| "str_exn (Exception m) = m"

type_synonym pydict = "string \<rightharpoonup> string"

definition getitem :: "pydict \<Rightarrow> string \<Rightarrow> exn + string" where
  "getitem d k = (case d k of None \<Rightarrow> Inl (KeyError k) | Some v \<Rightarrow> Inr v)"

text \<open>Decimal rendering of a non-negative integer, as an f-string prints it.\<close>

definition digit_char :: "nat \<Rightarrow> char" where
  "digit_char d = ''0123456789'' ! d"

function str_nat :: "nat \<Rightarrow> string" where
  "str_nat n = (if n < 10 then [digit_char n]
                else str_nat (n div 10) @ [digit_char (n mod 10)])"
  by pat_completeness auto
termination
  by (relation "measure id") auto

declare str_nat.simps [simp del]

text \<open>\<^verbatim>\<open>sep.join(parts)\<close>\<close>

fun join :: "string \<Rightarrow> string list \<Rightarrow> string" where
  "join sep [] = []"
| "join sep [x] = x"
| "join sep (x # y # ys) = x @ sep @ join sep (y # ys)"

section \<open>llm\_manager.py: the provider registry\<close>

text \<open>
  A provider (\<^verbatim>\<open>BaseLLM\<close>) is its \<^verbatim>\<open>generate\<close> method: it maps the messages to a
  returned string or to a raised exception. \<^verbatim>\<open>LLMManager\<close> holds the dictionary
  \<^verbatim>\<open>llms\<close> and the nullable \<^verbatim>\<open>active_provider\<close>.
\<close>

type_synonym message = pydict
type_synonym base_llm = "message list \<Rightarrow> exn + string"

record llm_manager =
  llms :: "string \<rightharpoonup> base_llm"
  active_provider :: "string option"

text \<open>
  Python's \<^verbatim>\<open>provider or self.active_provider\<close>: \<^verbatim>\<open>None\<close> and the empty string are
  falsy, so both yield the right operand.
\<close>

definition py_or :: "string option \<Rightarrow> string option \<Rightarrow> string option" where
  "py_or a b = (case a of None \<Rightarrow> b | Some s \<Rightarrow> if s = [] then b else Some s)"

definition get_llm :: "llm_manager \<Rightarrow> string option \<Rightarrow> base_llm option" where
  "get_llm m provider =
     (case py_or provider (active_provider m) of
        None \<Rightarrow> None
      | Some p \<Rightarrow> llms m p)"

definition set_active_provider :: "llm_manager \<Rightarrow> string \<Rightarrow> bool \<times> llm_manager" where
  "set_active_provider m provider =
     (if provider \<in> dom (llms m)
      then (True, m\<lparr>active_provider := Some provider\<rparr>)
      else (False, m))"

definition no_provider_message :: string where
  "no_provider_message = ''Error: No LLM provider available''"

text \<open>
  The result of a call is paired with the trace of provider invocations it made:
  one entry, the messages handed over, per call of a provider's \<^verbatim>\<open>generate\<close>.
\<close>

type_synonym trace = "message list list"

definition LLMManager_generate_response ::
  "llm_manager \<Rightarrow> message list \<Rightarrow> string option \<Rightarrow> (exn + string) \<times> trace" where
  "LLMManager_generate_response m messages provider =
     (case get_llm m provider of
        None \<Rightarrow> (Inr no_provider_message, [])
      | Some llm \<Rightarrow> (llm messages, [messages]))"

section \<open>rag\_pipeline.py: answering a query\<close>

text \<open>
  \<^verbatim>\<open>vector_store.search\<close> belongs to the module \<^verbatim>\<open>vector_store\<close>, whose code is not
  available; the pipeline is therefore parameterised by it: a query yields a list
  of context entries or raises.
\<close>

type_synonym search = "string \<Rightarrow> exn + pydict list"

definition insufficient_message :: string where
  "insufficient_message =
     ''I don't have enough information to answer that question. Please try rephrasing or ask about a different topic.''"

text \<open>
  The list comprehension \<^verbatim>\<open>[f"Context {i+1}: {doc['text']}" for i, doc in enumerate(context)]\<close>;
  the first entry without a \<^verbatim>\<open>text\<close> key raises.
\<close>

fun context_parts :: "nat \<Rightarrow> pydict list \<Rightarrow> exn + string list" where
  "context_parts i [] = Inr []"
| "context_parts i (doc # docs) =
     (case getitem doc ''text'' of
        Inl e \<Rightarrow> Inl e
      | Inr t \<Rightarrow>
          (case context_parts (Suc i) docs of
             Inl e \<Rightarrow> Inl e
           | Inr ps \<Rightarrow> Inr ((''Context '' @ str_nat (i + 1) @ '': '' @ t) # ps)))"

definition indent :: string where
  "indent = replicate 12 CHR '' ''"

definition system_message :: "string \<Rightarrow> string" where
  "system_message context_text =
     ''You are a helpful AI assistant. Use the following context to answer the user's question. \<newline>''
     @ indent @ ''If the context doesn't contain enough information to answer the question, say so.\<newline>''
     @ indent @ ''\<newline>''
     @ indent @ ''Context:\<newline>''
     @ indent @ context_text @ ''\<newline>''
     @ indent @ ''\<newline>''
     @ indent @ ''Answer the user's question based on the context provided.''"

definition mk_message :: "string \<Rightarrow> string \<Rightarrow> message" where
  "mk_message r c = [''role'' \<mapsto> r, ''content'' \<mapsto> c]"

text \<open>
  The body of the \<^verbatim>\<open>try\<close> block of \<^verbatim>\<open>RAGPipeline.generate_response\<close>. The log
  lines written by the answering methods do not influence their results and are
  left out.
\<close>

definition generate_response_try ::
  "search \<Rightarrow> llm_manager \<Rightarrow> string \<Rightarrow> pydict list option \<Rightarrow> string option
     \<Rightarrow> (exn + string) \<times> trace" where
  "generate_response_try search m query context provider =
     (case (case context of None \<Rightarrow> search query | Some c \<Rightarrow> Inr c) of
        Inl e \<Rightarrow> (Inl e, [])
      | Inr ctx \<Rightarrow>
          if ctx = [] then (Inr insufficient_message, [])
          else
            (case context_parts 0 ctx of
               Inl e \<Rightarrow> (Inl e, [])
             | Inr parts \<Rightarrow>
                 LLMManager_generate_response m
                   [mk_message ''system'' (system_message (join ''\<newline>\<newline>'' parts)),
                    mk_message ''user'' query]
                   provider))"

text \<open>The \<^verbatim>\<open>except Exception\<close> handler turns every exception into a returned string.\<close>

definition RAGPipeline_generate_response ::
  "search \<Rightarrow> llm_manager \<Rightarrow> string \<Rightarrow> pydict list option \<Rightarrow> string option
     \<Rightarrow> (exn + string) \<times> trace" where
  "RAGPipeline_generate_response search m query context provider =
     (case generate_response_try search m query context provider of
        (Inl e, tr) \<Rightarrow> (Inr (''Error generating response: '' @ str_exn e), tr)
      | (Inr s, tr) \<Rightarrow> (Inr s, tr))"

definition chat_try ::
  "search \<Rightarrow> llm_manager \<Rightarrow> message list \<Rightarrow> string option \<Rightarrow> (exn + string) \<times> trace" where
  "chat_try search m messages provider =
     (if messages = [] then (Inr ''No messages provided'', [])
      else
        (let last_message = last messages in
         case getitem last_message ''role'' of
           Inl e \<Rightarrow> (Inl e, [])
         | Inr r \<Rightarrow>
             if r \<noteq> ''user'' then (Inr ''Last message must be from user'', [])
             else
               (case getitem last_message ''content'' of
                  Inl e \<Rightarrow> (Inl e, [])
                | Inr query \<Rightarrow> RAGPipeline_generate_response search m query None provider)))"

definition chat ::
  "search \<Rightarrow> llm_manager \<Rightarrow> message list \<Rightarrow> string option \<Rightarrow> (exn + string) \<times> trace" where
  "chat search m messages provider =
     (case chat_try search m messages provider of
        (Inl e, tr) \<Rightarrow> (Inr (''Error in chat: '' @ str_exn e), tr)
      | (Inr s, tr) \<Rightarrow> (Inr s, tr))"

section \<open>The chunk splitter\<close>

text \<open>
  Modelled from the spec: \<^verbatim>\<open>ChunkSplitter.split\<close>. \<^verbatim>\<open>RAGPipeline.__init__\<close> only configures
  a third-party \<^verbatim>\<open>RecursiveCharacterTextSplitter\<close> (chunk size, chunk overlap,
  \<^verbatim>\<open>length_function=len\<close>, separators paragraph break, line break, space, empty
  string); the splitting code itself is not part of the repository. Following
  the spec's description:
  \<^item> the text is split on the current separator, which stays at the head of the
    segment that follows it, and empty segments are dropped; the empty separator
    splits into single characters;
  \<^item> segments of at most \<open>chunk_size\<close> characters are packed greedily, in order,
    into chunks; a chunk is closed when the next segment would not fit;
  \<^item> the chunk that follows starts with trailing segments of the closed one,
    amounting to at most \<open>overlap\<close> characters (fewer if the next segment would
    not fit otherwise);
  \<^item> a segment that alone exceeds \<open>chunk_size\<close> closes the chunk being packed and is
    split with the next finer separator;
  \<^item> an empty text gives no chunk.
\<close>

function split_on_aux :: "string \<Rightarrow> string \<Rightarrow> string \<Rightarrow> string list" where
  "split_on_aux sep piece [] = [piece]"
| "split_on_aux sep piece (c # cs) =
     (if sep \<noteq> [] \<and> take (length sep) (c # cs) = sep
      then piece # split_on_aux sep sep (drop (length sep) (c # cs))
      else split_on_aux sep (piece @ [c]) cs)"
  by pat_completeness auto
termination
  by (relation "measure (\<lambda>(sep, piece, s). length s)") auto

definition split_on :: "string \<Rightarrow> string \<Rightarrow> string list" where
  "split_on sep s =
     filter (\<lambda>p. p \<noteq> []) (if sep = [] then map (\<lambda>c. [c]) s else split_on_aux sep [] s)"

text \<open>
  Modelled from the spec: the overlap between consecutive chunks. Segments are
  dropped from the front of the window (the segments of the chunk just closed)
  while it holds more than \<open>overlap\<close> characters, or while the next segment, of
  length \<open>l\<close>, does not fit.
\<close>

fun trim_window :: "nat \<Rightarrow> nat \<Rightarrow> nat \<Rightarrow> string list \<Rightarrow> string list" where
  "trim_window chunk_size overlap l [] = []"
| "trim_window chunk_size overlap l (x # xs) =
     (let total = length (concat (x # xs)) in
      if total > overlap \<or> (total + l > chunk_size \<and> total > 0)
      then trim_window chunk_size overlap l xs
      else x # xs)"

text \<open>
  Modelled from the spec: the greedy packing. \<open>current\<close> holds the segments of the
  chunk being packed; a chunk is the concatenation of its segments.
\<close>

fun merge_loop :: "nat \<Rightarrow> nat \<Rightarrow> string list \<Rightarrow> string list \<Rightarrow> string list" where
  "merge_loop chunk_size overlap current [] =
     (if concat current = [] then [] else [concat current])"
| "merge_loop chunk_size overlap current (d # ds) =
     (if length (concat current) + length d > chunk_size \<and> current \<noteq> []
      then (if concat current = [] then [] else [concat current])
           @ merge_loop chunk_size overlap
               (trim_window chunk_size overlap (length d) current @ [d]) ds
      else merge_loop chunk_size overlap (current @ [d]) ds)"

definition merge_splits :: "nat \<Rightarrow> nat \<Rightarrow> string list \<Rightarrow> string list" where
  "merge_splits chunk_size overlap splits = merge_loop chunk_size overlap [] splits"

text \<open>
  Modelled from the spec: one level of the recursion. Segments that fit are
  collected in \<open>good\<close>; a segment that alone exceeds \<open>chunk_size\<close> has the
  collected ones packed and is handed to the next finer level \<open>finer\<close>.
\<close>

fun pack_segments ::
  "nat \<Rightarrow> nat \<Rightarrow> (string \<Rightarrow> string list) \<Rightarrow> string list \<Rightarrow> string list \<Rightarrow> string list" where
  "pack_segments chunk_size overlap finer good [] = merge_splits chunk_size overlap good"
| "pack_segments chunk_size overlap finer good (s # ss) =
     (if length s \<le> chunk_size
      then pack_segments chunk_size overlap finer (good @ [s]) ss
      else merge_splits chunk_size overlap good @ finer s
           @ pack_segments chunk_size overlap finer [] ss)"

text \<open>
  Modelled from the spec: the recursion over the separators, coarsest first; once
  they are used up the text is split into characters. \<open>split_text\<close> fixes the
  separators that \<^verbatim>\<open>RAGPipeline.__init__\<close> passes.
\<close>

primrec split_rec :: "nat \<Rightarrow> nat \<Rightarrow> string list \<Rightarrow> string \<Rightarrow> string list" where
  "split_rec chunk_size overlap [] s = merge_splits chunk_size overlap (split_on [] s)"
| "split_rec chunk_size overlap (sep # seps) s =
     pack_segments chunk_size overlap (split_rec chunk_size overlap seps) [] (split_on sep s)"

definition split_text :: "nat \<Rightarrow> nat \<Rightarrow> string \<Rightarrow> string list" where
  "split_text chunk_size overlap s =
     split_rec chunk_size overlap [''\<newline>\<newline>'', ''\<newline>'', '' ''] s"

section \<open>rag\_pipeline.py: ingesting documents\<close>

text \<open>
  A document is a dictionary (\<^verbatim>\<open>Dict[str, Any]\<close>) read at the keys \<^verbatim>\<open>id\<close>,
  \<^verbatim>\<open>text\<close> and \<^verbatim>\<open>metadata\<close>; each may be absent. Metadata values are scalars.
  A chunk document is the dictionary built in the inner loop, with the keys
  \<^verbatim>\<open>id\<close>, \<^verbatim>\<open>text\<close> and \<^verbatim>\<open>metadata\<close>.
\<close>

datatype pyval = PStr string | PInt int

record document =
  doc_id :: "string option"
  doc_text :: "string option"
  doc_metadata :: "(string \<rightharpoonup> pyval) option"

record chunk_doc =
  chunk_id :: string
  chunk_text :: string
  chunk_metadata :: "string \<rightharpoonup> pyval"

text \<open>
  The inner loop \<^verbatim>\<open>for i, chunk in enumerate(chunks)\<close>. The key \<^verbatim>\<open>id\<close> is first read
  when a chunk document is built, so a document without chunks never raises here.
  \<^verbatim>\<open>doc.get("metadata", {})\<close> defaults to the empty dictionary, and the three keys
  written after the unpacking override equally named user keys.
\<close>

fun make_chunks :: "document \<Rightarrow> nat \<Rightarrow> nat \<Rightarrow> string list \<Rightarrow> exn + chunk_doc list" where
  "make_chunks doc n_chunks i [] = Inr []"
| "make_chunks doc n_chunks i (chunk # chunks) =
     (case doc_id doc of
        None \<Rightarrow> Inl (KeyError ''id'')
      | Some d \<Rightarrow>
          (case make_chunks doc n_chunks (Suc i) chunks of
             Inl e \<Rightarrow> Inl e
           | Inr rest \<Rightarrow>
               Inr (\<lparr>chunk_id = d @ ''_chunk_'' @ str_nat i,
                     chunk_text = chunk,
                     chunk_metadata =
                       (case doc_metadata doc of None \<Rightarrow> Map.empty | Some md \<Rightarrow> md)
                         (''chunk_index'' \<mapsto> PInt (int i),
                          ''total_chunks'' \<mapsto> PInt (int n_chunks),
                          ''source_id'' \<mapsto> PStr d)\<rparr> # rest)))"

text \<open>
  The outer loop \<^verbatim>\<open>for doc in documents\<close>, parameterised by the splitter's
  \<^verbatim>\<open>split_text\<close>. An exception anywhere discards everything collected so far.
\<close>

fun process_loop :: "(string \<Rightarrow> string list) \<Rightarrow> document list \<Rightarrow> exn + chunk_doc list" where
  "process_loop text_splitter [] = Inr []"
| "process_loop text_splitter (doc # docs) =
     (case doc_text doc of
        None \<Rightarrow> Inl (KeyError ''text'')
      | Some t \<Rightarrow>
          (let chunks = text_splitter t in
           case make_chunks doc (length chunks) 0 chunks of
             Inl e \<Rightarrow> Inl e
           | Inr cs \<Rightarrow>
               (case process_loop text_splitter docs of
                  Inl e \<Rightarrow> Inl e
                | Inr rest \<Rightarrow> Inr (cs @ rest))))"

subsection \<open>The vector store\<close>

text \<open>
  Modelled from the spec: \<^verbatim>\<open>vector_store.add_documents\<close> (the spec's
  \<^verbatim>\<open>EmbeddingIndex.upsert\<close>); the code of the module \<^verbatim>\<open>vector_store\<close> is not available.
  The index maps a chunk id to its embedding, text and metadata. An upsert embeds
  every chunk's text with the injected embedding function and writes or overwrites
  the entries keyed by chunk id; if the embedding function fails on any chunk, or
  yields a vector whose dimension is not the index's \<open>D\<close>, the whole batch is
  rejected and the index is left as it was. The Boolean is the success flag that
  \<^verbatim>\<open>process_documents\<close> receives.
\<close>

record 'a index_entry =
  entry_embedding :: "'a list"
  entry_text :: string
  entry_metadata :: "string \<rightharpoonup> pyval"

type_synonym 'a embedding_index = "string \<rightharpoonup> 'a index_entry"

text \<open>
  Modelled from the spec: the embedding of a batch. The result is \<open>None\<close> when
  the embedding function fails on some chunk or a vector has the wrong dimension.
\<close>

fun embed_all ::
  "(string \<Rightarrow> 'a list option) \<Rightarrow> nat \<Rightarrow> chunk_doc list \<Rightarrow> (string \<times> 'a index_entry) list option" where
  "embed_all embedder D [] = Some []"
| "embed_all embedder D (c # cs) =
     (case embedder (chunk_text c) of
        None \<Rightarrow> None
      | Some v \<Rightarrow>
          if length v \<noteq> D then None
          else
            (case embed_all embedder D cs of
               None \<Rightarrow> None
             | Some es \<Rightarrow>
                 Some ((chunk_id c,
                        \<lparr>entry_embedding = v, entry_text = chunk_text c,
                         entry_metadata = chunk_metadata c\<rparr>) # es)))"

text \<open>
  Modelled from the spec: writing or overwriting the entry keyed by a chunk id, and
  the upsert of a batch, all or nothing.
\<close>

definition upsert_entry ::
  "string \<times> 'a index_entry \<Rightarrow> 'a embedding_index \<Rightarrow> 'a embedding_index" where
  "upsert_entry kv idx = idx(fst kv \<mapsto> snd kv)"

definition add_documents ::
  "(string \<Rightarrow> 'a list option) \<Rightarrow> nat \<Rightarrow> 'a embedding_index \<Rightarrow> chunk_doc list
     \<Rightarrow> bool \<times> 'a embedding_index" where
  "add_documents embedder D idx chunks =
     (case embed_all embedder D chunks of
        None \<Rightarrow> (False, idx)
      | Some es \<Rightarrow> (True, fold upsert_entry es idx))"

subsection \<open>process\_documents\<close>

text \<open>
  The method returns the success flag; the model pairs it with the index after
  the call and with the log records written. The only record of the number of
  documents taken in and of chunks stored is the \<^verbatim>\<open>info\<close> line written on success.
\<close>

datatype log_record = LogInfo string | LogError string

definition process_documents ::
  "(string \<Rightarrow> string list) \<Rightarrow> (string \<Rightarrow> 'a list option) \<Rightarrow> nat \<Rightarrow> 'a embedding_index
     \<Rightarrow> document list \<Rightarrow> bool \<times> 'a embedding_index \<times> log_record list" where
  "process_documents text_splitter embedder D idx documents =
     (case process_loop text_splitter documents of
        Inl e \<Rightarrow> (False, idx, [LogError (''Error processing documents: '' @ str_exn e)])
      | Inr processed_chunks \<Rightarrow>
          (case add_documents embedder D idx processed_chunks of
             (success, idx') \<Rightarrow>
               (success, idx',
                if success
                then [LogInfo (''Processed '' @ str_nat (length documents) @ '' documents into ''
                               @ str_nat (length processed_chunks) @ '' chunks'')]
                else [])))"

section \<open>Concrete configurations\<close>

definition stub_llm :: base_llm where
  "stub_llm messages = Inr ''generated answer''"

definition one_provider :: llm_manager where
  "one_provider = \<lparr>llms = [''openai'' \<mapsto> stub_llm], active_provider = Some ''openai''\<rparr>"

definition no_providers :: llm_manager where
  "no_providers = \<lparr>llms = Map.empty, active_provider = None\<rparr>"

definition no_hits :: search where
  "no_hits query = Inr []"

definition two_hits :: search where
  "two_hits query = Inr [[''text'' \<mapsto> ''AI is a field.''], [''text'' \<mapsto> ''Machine learning is a subset.'']]"

text \<open>A two-dimensional embedding and a document of ten characters.\<close>

definition embed_len :: "string \<Rightarrow> nat list option" where
  "embed_len s = Some [length s, 1]"

definition sample_doc :: document where
  "sample_doc = \<lparr>doc_id = Some ''d1'', doc_text = Some ''abcdefghij'', doc_metadata = None\<rparr>"

text \<open>The same document (same id, same text) carrying user metadata.\<close>

definition tagged_doc :: document where
  "tagged_doc = \<lparr>doc_id = Some ''d1'', doc_text = Some ''abcdefghij'',
                  doc_metadata = Some [''category'' \<mapsto> PStr ''AI'']\<rparr>"

section \<open>Properties of the provider registry\<close>

text \<open>
  C6: for every provider name that is not registered, \<^verbatim>\<open>set_active_provider\<close>
  signals failure to its caller (it returns \<^verbatim>\<open>False\<close>) and leaves the manager, and
  with it the active provider, unchanged.
\<close>

theorem set_active_provider_unregistered:
  assumes "provider \<notin> dom (llms m)"
  shows "set_active_provider m provider = (False, m)"
  using assms by (simp add: set_active_provider_def)

theorem set_active_provider_unregistered_witness:
  "''nonexistent'' \<notin> dom (llms one_provider)
   \<and> set_active_provider one_provider ''nonexistent'' = (False, one_provider)
   \<and> active_provider (snd (set_active_provider one_provider ''nonexistent'')) = Some ''openai''"
  using set_active_provider_unregistered [of "''nonexistent''" one_provider]
  by (simp add: one_provider_def)

text \<open>
  C10, as amended: for every generate call that names, by a non-empty string, a
  provider that is not registered, the result is the no-provider-available string
  and no provider is invoked, whatever the active provider is. (The empty string
  is falsy in \<^verbatim>\<open>provider or self.active_provider\<close> and selects the active provider.)
\<close>

theorem unknown_provider_no_fallback:
  assumes "provider \<noteq> []" and "provider \<notin> dom (llms m)"
  shows "LLMManager_generate_response m messages (Some provider) = (Inr no_provider_message, [])"
  using assms
  by (auto simp: LLMManager_generate_response_def get_llm_def py_or_def domIff)

theorem unknown_provider_no_fallback_witness:
  "''huggingface'' \<noteq> [] \<and> ''huggingface'' \<notin> dom (llms one_provider)
   \<and> LLMManager_generate_response one_provider [mk_message ''user'' ''hi''] (Some ''huggingface'')
       = (Inr no_provider_message, [])
   \<and> get_llm one_provider None = Some stub_llm"
  using unknown_provider_no_fallback [of "''huggingface''" one_provider "[mk_message ''user'' ''hi'']"]
  by (simp add: one_provider_def get_llm_def py_or_def)

theorem unknown_provider_counterexample:
  "'''' \<notin> dom (llms one_provider)
   \<and> LLMManager_generate_response one_provider [mk_message ''user'' ''hi''] (Some '''')
       = (Inr ''generated answer'', [[mk_message ''user'' ''hi'']])
   \<and> fst (LLMManager_generate_response one_provider [mk_message ''user'' ''hi''] (Some ''''))
       \<noteq> Inr no_provider_message"
  by (simp add: LLMManager_generate_response_def get_llm_def py_or_def one_provider_def
        stub_llm_def no_provider_message_def)

section \<open>Properties of answering\<close>

lemma insufficient_message_nonempty: "insufficient_message \<noteq> []"
  by (simp add: insufficient_message_def)

text \<open>
  C1: when the context is empty (retrieval returned no chunks, or the caller
  passed an empty context), \<^verbatim>\<open>generate_response\<close> returns the fixed
  insufficient-information message, which is not the empty string, and the trace
  of provider invocations is empty.
\<close>

theorem empty_context_degrades:
  assumes "(context = None \<and> search query = Inr []) \<or> context = Some []"
  shows "RAGPipeline_generate_response search m query context provider
           = (Inr insufficient_message, [])
         \<and> insufficient_message \<noteq> []"
  using assms
  by (auto simp: RAGPipeline_generate_response_def generate_response_try_def
        insufficient_message_nonempty)

theorem empty_context_degrades_witness:
  "no_hits ''What is AI?'' = Inr []
   \<and> RAGPipeline_generate_response no_hits one_provider ''What is AI?'' None None
       = (Inr insufficient_message, [])
   \<and> get_llm one_provider None = Some stub_llm"
  using empty_context_degrades [of None no_hits "''What is AI?''" one_provider None]
  by (simp add: no_hits_def get_llm_def py_or_def one_provider_def)

lemma context_parts_texts:
  "map (\<lambda>d. d ''text'') ctx = map Some texts \<Longrightarrow>
   context_parts i ctx =
     Inr (map (\<lambda>k. ''Context '' @ str_nat (i + k + 1) @ '': '' @ texts ! k) [0..<length texts])"
proof (induction ctx arbitrary: i texts)
  case Nil
  then show ?case by simp
next
  case (Cons d ctx)
  then obtain t ts where texts: "texts = t # ts" and d: "d ''text'' = Some t"
    and rest: "map (\<lambda>d. d ''text'') ctx = map Some ts"
    by (cases texts) auto
  have "context_parts (Suc i) ctx =
      Inr (map (\<lambda>k. ''Context '' @ str_nat (Suc i + k + 1) @ '': '' @ ts ! k) [0..<length ts])"
    using Cons.IH [OF rest] .
  moreover have "[0..<length texts] = 0 # map Suc [0..<length ts]"
    by (simp add: texts upt_conv_Cons map_Suc_upt del: upt_Suc)
  ultimately show ?case
    by (simp add: getitem_def d texts comp_def del: upt_Suc)
qed

lemma generate_response_always_returns:
  "\<exists>s. fst (RAGPipeline_generate_response search m query context provider) = Inr s"
  by (cases "generate_response_try search m query context provider")
     (auto simp: RAGPipeline_generate_response_def split: sum.splits)



text \<open>
  C9: for every turn sequence of length at least 2 whose last turn has role
  \<^verbatim>\<open>user\<close>, \<^verbatim>\<open>chat\<close> returns the same string, and makes the same provider
  invocations, as on the last turn alone: earlier turns have no effect.
\<close>

theorem chat_depends_on_last_turn_only:
  assumes "2 \<le> length turns" and "last turns ''role'' = Some ''user''"
  shows "chat search m turns provider = chat search m [last turns] provider"
  using assms by (auto simp: chat_def chat_try_def)

theorem chat_depends_on_last_turn_only_witness:
  "2 \<le> length [mk_message ''user'' ''first'', mk_message ''assistant'' ''reply'', mk_message ''user'' ''What is AI?'']
   \<and> last [mk_message ''user'' ''first'', mk_message ''assistant'' ''reply'', mk_message ''user'' ''What is AI?''] ''role''
       = Some ''user''
   \<and> chat two_hits one_provider
        [mk_message ''user'' ''first'', mk_message ''assistant'' ''reply'', mk_message ''user'' ''What is AI?''] None
       = chat two_hits one_provider [mk_message ''user'' ''What is AI?''] None"
  using chat_depends_on_last_turn_only
    [of "[mk_message ''user'' ''first'', mk_message ''assistant'' ''reply'', mk_message ''user'' ''What is AI?'']"
        two_hits one_provider None]
  by (simp add: mk_message_def)

text \<open>
  C2, as amended: for an empty turn sequence \<^verbatim>\<open>chat\<close> returns the plain string
  \<^verbatim>\<open>No messages provided\<close>, and for a sequence whose last turn has a role other than
  \<^verbatim>\<open>user\<close> it returns the plain string \<^verbatim>\<open>Last message must be from user\<close>; in both
  cases nothing is raised and no provider is invoked.
\<close>

theorem chat_rejects_with_text:
  "(messages = [] \<longrightarrow> chat search m messages provider = (Inr ''No messages provided'', []))
   \<and> (messages \<noteq> [] \<and> last messages ''role'' = Some r \<and> r \<noteq> ''user'' \<longrightarrow>
        chat search m messages provider = (Inr ''Last message must be from user'', []))"
  by (auto simp: chat_def chat_try_def getitem_def)

theorem chat_rejects_with_text_witness:
  "chat two_hits one_provider [] None = (Inr ''No messages provided'', [])
   \<and> [mk_message ''assistant'' ''hi''] \<noteq> []
   \<and> last [mk_message ''assistant'' ''hi''] ''role'' = Some ''assistant''
   \<and> ''assistant'' \<noteq> ''user''
   \<and> chat two_hits one_provider [mk_message ''assistant'' ''hi''] None
       = (Inr ''Last message must be from user'', [])"
  using chat_rejects_with_text [of "[]" two_hits one_provider None "''assistant''"]
    chat_rejects_with_text [of "[mk_message ''assistant'' ''hi'']" two_hits one_provider None "''assistant''"]
  by (simp add: mk_message_def)

theorem chat_validation_counterexample:
  "chat two_hits one_provider [] None = (Inr ''No messages provided'', [])
   \<and> \<not> isl (fst (chat two_hits one_provider [] None))
   \<and> last [mk_message ''assistant'' ''hi''] ''role'' = Some ''assistant''
   \<and> chat two_hits one_provider [mk_message ''assistant'' ''hi''] None
       = (Inr ''Last message must be from user'', [])
   \<and> \<not> isl (fst (chat two_hits one_provider [mk_message ''assistant'' ''hi''] None))"
  by (simp add: chat_def chat_try_def getitem_def mk_message_def)

text \<open>
  C3, as amended: when no provider is registered, \<^verbatim>\<open>LLMManager.generate_response\<close>
  returns the no-provider-available string for every call;
  \<^verbatim>\<open>RAGPipeline.generate_response\<close> never raises, and it returns the
  no-provider-available string for every query whose context is non-empty and
  whose entries all carry a text. (For an empty context it returns the
  insufficient-information message, see C1.)
\<close>

theorem no_providers_soft_fail:
  assumes "llms m = Map.empty"
  shows "LLMManager_generate_response m messages provider = (Inr no_provider_message, [])
       \<and> (\<exists>s. fst (RAGPipeline_generate_response search m query context provider) = Inr s)
       \<and> (ctx \<noteq> [] \<and> map (\<lambda>d. d ''text'') ctx = map Some texts
            \<and> ((context = None \<and> search query = Inr ctx) \<or> context = Some ctx) \<longrightarrow>
          RAGPipeline_generate_response search m query context provider
            = (Inr no_provider_message, []))"
proof -
  have none: "get_llm m p = None" for p
    using assms by (simp add: get_llm_def split: option.splits)
  have gen: "LLMManager_generate_response m ms p = (Inr no_provider_message, [])" for ms p
    by (simp add: LLMManager_generate_response_def none)
  have "RAGPipeline_generate_response search m query context provider
          = (Inr no_provider_message, [])"
    if "ctx \<noteq> []" and "map (\<lambda>d. d ''text'') ctx = map Some texts"
      and "(context = None \<and> search query = Inr ctx) \<or> context = Some ctx"
    using that context_parts_texts [OF that(2), of 0]
    by (auto simp: RAGPipeline_generate_response_def generate_response_try_def gen)
  then show ?thesis
    using gen generate_response_always_returns by blast
qed

theorem no_providers_soft_fail_witness:
  "llms no_providers = Map.empty
   \<and> LLMManager_generate_response no_providers [mk_message ''user'' ''anything''] None
       = (Inr no_provider_message, [])
   \<and> two_hits ''anything'' = Inr [[''text'' \<mapsto> ''AI is a field.''], [''text'' \<mapsto> ''Machine learning is a subset.'']]
   \<and> RAGPipeline_generate_response two_hits no_providers ''anything'' None None
       = (Inr no_provider_message, [])"
  using no_providers_soft_fail
    [of no_providers "[mk_message ''user'' ''anything'']" None two_hits "''anything''" None
        "[[''text'' \<mapsto> ''AI is a field.''], [''text'' \<mapsto> ''Machine learning is a subset.'']]"
        "[''AI is a field.'', ''Machine learning is a subset.'']"]
  by (simp add: no_providers_def two_hits_def)

theorem no_providers_counterexample:
  "llms no_providers = Map.empty
   \<and> no_hits ''anything'' = Inr []
   \<and> RAGPipeline_generate_response no_hits no_providers ''anything'' None None
       = (Inr insufficient_message, [])
   \<and> fst (RAGPipeline_generate_response no_hits no_providers ''anything'' None None)
       \<noteq> Inr no_provider_message"
  by (simp add: RAGPipeline_generate_response_def generate_response_try_def no_hits_def
        no_providers_def insufficient_message_def no_provider_message_def)

section \<open>Properties of ingestion\<close>

lemma upsert_entry_map_add: "upsert_entry e idx = idx ++ map_of [e]"
  by (cases e) (simp add: upsert_entry_def map_add_def fun_eq_iff)

lemma fold_upsert_entry: "fold upsert_entry es idx = idx ++ map_of (rev es)"
proof (induction es arbitrary: idx)
  case Nil
  then show ?case by simp
next
  case (Cons e es)
  have "fold upsert_entry (e # es) idx = fold upsert_entry es (upsert_entry e idx)"
    by simp
  also have "\<dots> = (idx ++ map_of [e]) ++ map_of (rev es)"
    by (simp only: Cons.IH upsert_entry_map_add)
  also have "\<dots> = idx ++ map_of (rev (e # es))"
    by simp
  finally show ?case .
qed

lemma map_add_same: "(m ++ f) ++ f = m ++ f"
  by (simp add: map_add_def fun_eq_iff split: option.splits)

lemma fold_upsert_entry_twice:
  "fold upsert_entry es (fold upsert_entry es idx) = fold upsert_entry es idx"
  by (simp only: fold_upsert_entry map_add_same)

lemma dom_fold_upsert_entry: "dom (fold upsert_entry es idx) = dom idx \<union> fst ` set es"
  by (auto simp: fold_upsert_entry dom_map_of_conv_image_fst)

lemma add_documents_twice:
  "add_documents embedder D (snd (add_documents embedder D idx chunks)) chunks
     = add_documents embedder D idx chunks"
  by (simp add: add_documents_def fold_upsert_entry_twice split: option.splits)

lemma embed_all_keys:
  "map chunk_id cs' = map chunk_id cs \<Longrightarrow> map chunk_text cs' = map chunk_text cs \<Longrightarrow>
   map_option (map fst) (embed_all embedder D cs') = map_option (map fst) (embed_all embedder D cs)"
proof (induction cs arbitrary: cs')
  case Nil
  then show ?case by simp
next
  case (Cons c cs)
  then obtain c' cs'' where cs': "cs' = c' # cs''" by (cases cs') auto
  with Cons.prems have "chunk_id c' = chunk_id c" "chunk_text c' = chunk_text c"
    "map chunk_id cs'' = map chunk_id cs" "map chunk_text cs'' = map chunk_text cs"
    by auto
  with Cons.IH [of cs''] show ?case
    by (auto simp: cs' split: option.splits)
qed

lemma make_chunks_shape:
  "make_chunks doc n i chunks =
     (case doc_id doc of
        None \<Rightarrow> if chunks = [] then Inr [] else Inl (KeyError ''id'')
      | Some d \<Rightarrow>
          Inr (map (\<lambda>k. \<lparr>chunk_id = d @ ''_chunk_'' @ str_nat (i + k),
                          chunk_text = chunks ! k,
                          chunk_metadata =
                            (case doc_metadata doc of None \<Rightarrow> Map.empty | Some md \<Rightarrow> md)
                              (''chunk_index'' \<mapsto> PInt (int (i + k)),
                               ''total_chunks'' \<mapsto> PInt (int n),
                               ''source_id'' \<mapsto> PStr d)\<rparr>)
                 [0..<length chunks]))"
proof (induction chunks arbitrary: i)
  case Nil
  then show ?case by (simp split: option.splits)
next
  case (Cons c chunks)
  have upt: "[0..<Suc (length chunks)] = 0 # map Suc [0..<length chunks]"
    by (simp add: upt_conv_Cons map_Suc_upt del: upt_Suc)
  show ?case
    by (simp add: Cons.IH [of "Suc i"] upt comp_def add.left_commute del: upt_Suc split: option.splits)
qed


lemma process_documents_twice:
  "fst (snd (process_documents text_splitter embedder D
               (fst (snd (process_documents text_splitter embedder D idx docs))) docs))
     = fst (snd (process_documents text_splitter embedder D idx docs))"
proof (cases "process_loop text_splitter docs")
  case (Inl e)
  then show ?thesis by (simp add: process_documents_def)
next
  case (Inr cs)
  obtain ok idx1 where first: "add_documents embedder D idx cs = (ok, idx1)"
    by (cases "add_documents embedder D idx cs")
  have "add_documents embedder D idx1 cs = (ok, idx1)"
    using add_documents_twice [of embedder D idx cs] first by simp
  with first Inr show ?thesis by (simp add: process_documents_def)
qed

lemma make_chunks_same_keys:
  assumes "doc_id doc' = doc_id doc"
  shows "(\<exists>e. make_chunks doc' n 0 chunks = Inl e \<and> make_chunks doc n 0 chunks = Inl e)
       \<or> (\<exists>cs' cs. make_chunks doc' n 0 chunks = Inr cs' \<and> make_chunks doc n 0 chunks = Inr cs
             \<and> map chunk_id cs' = map chunk_id cs \<and> map chunk_text cs' = map chunk_text cs)"
  using assms by (auto simp: make_chunks_shape comp_def split: option.splits)

lemma process_loop_batch_same_keys:
  assumes "map doc_id docs' = map doc_id docs" and "map doc_text docs' = map doc_text docs"
  shows "(\<exists>e. process_loop text_splitter docs' = Inl e \<and> process_loop text_splitter docs = Inl e)
       \<or> (\<exists>cs' cs. process_loop text_splitter docs' = Inr cs'
             \<and> process_loop text_splitter docs = Inr cs
             \<and> map chunk_id cs' = map chunk_id cs \<and> map chunk_text cs' = map chunk_text cs)"
  using assms
proof (induction docs arbitrary: docs')
  case Nil
  then show ?case by simp
next
  case (Cons doc docs)
  then obtain doc' rest' where docs': "docs' = doc' # rest'"
    and same_id: "doc_id doc' = doc_id doc" and same_text: "doc_text doc' = doc_text doc"
    and rest: "map doc_id rest' = map doc_id docs" "map doc_text rest' = map doc_text docs"
    by (cases docs') auto
  show ?case
  proof (cases "doc_text doc")
    case None
    with same_text show ?thesis by (simp add: docs')
  next
    case (Some t)
    let ?chunks = "text_splitter t"
    from make_chunks_same_keys [OF same_id, of "length ?chunks" ?chunks]
    consider (err) e where "make_chunks doc' (length ?chunks) 0 ?chunks = Inl e"
        "make_chunks doc (length ?chunks) 0 ?chunks = Inl e"
      | (ok) cs' cs where "make_chunks doc' (length ?chunks) 0 ?chunks = Inr cs'"
        "make_chunks doc (length ?chunks) 0 ?chunks = Inr cs"
        "map chunk_id cs' = map chunk_id cs" "map chunk_text cs' = map chunk_text cs"
      by blast
    then show ?thesis
    proof cases
      case err
      with Some same_text show ?thesis by (simp add: docs' Let_def)
    next
      case ok
      from Cons.IH [OF rest] ok Some same_text show ?thesis
        by (auto simp: docs' Let_def)
    qed
  qed
qed

lemma process_loop_batch_shape:
  assumes "map doc_id docs = map Some ids" and "map doc_text docs = map Some texts"
  shows "\<exists>cs. process_loop text_splitter docs = Inr cs
           \<and> map chunk_id cs
               = concat (map (\<lambda>(d, t). map (\<lambda>k. d @ ''_chunk_'' @ str_nat k)
                                          [0..<length (text_splitter t)])
                          (zip ids texts))
           \<and> map chunk_text cs = concat (map text_splitter texts)"
  using assms
proof (induction docs arbitrary: ids texts)
  case Nil
  then show ?case by simp
next
  case (Cons doc docs)
  then obtain d ids' t texts' where ids: "ids = d # ids'" and texts: "texts = t # texts'"
    and doc: "doc_id doc = Some d" "doc_text doc = Some t"
    and rest: "map doc_id docs = map Some ids'" "map doc_text docs = map Some texts'"
    by (cases ids; cases texts) auto
  from Cons.IH [OF rest] obtain cs where cs: "process_loop text_splitter docs = Inr cs"
    "map chunk_id cs
       = concat (map (\<lambda>(d, t). map (\<lambda>k. d @ ''_chunk_'' @ str_nat k)
                                  [0..<length (text_splitter t)])
                  (zip ids' texts'))"
    "map chunk_text cs = concat (map text_splitter texts')"
    by blast
  show ?case
    by (simp add: doc cs ids texts Let_def make_chunks_shape comp_def map_nth)
qed

lemma reingest_batch_same_keys:
  assumes "map doc_id docs' = map doc_id docs" and "map doc_text docs' = map doc_text docs"
  shows "dom (fst (snd (process_documents text_splitter embedder D
               (fst (snd (process_documents text_splitter embedder D idx docs))) docs')))
     = dom (fst (snd (process_documents text_splitter embedder D idx docs)))"
proof -
  from process_loop_batch_same_keys [OF assms, of text_splitter]
  consider (err) e where "process_loop text_splitter docs' = Inl e"
      "process_loop text_splitter docs = Inl e"
    | (ok) cs' cs where "process_loop text_splitter docs' = Inr cs'"
      "process_loop text_splitter docs = Inr cs"
      "map chunk_id cs' = map chunk_id cs" "map chunk_text cs' = map chunk_text cs"
    by blast
  then show ?thesis
  proof cases
    case err
    then show ?thesis by (simp add: process_documents_def)
  next
    case ok
    note keys = embed_all_keys [OF ok(3,4), of embedder D]
    show ?thesis
    proof (cases "embed_all embedder D cs")
      case None
      with keys have "embed_all embedder D cs' = None" by simp
      with None ok(1,2) show ?thesis
        by (simp add: process_documents_def add_documents_def)
    next
      case (Some es)
      with keys obtain es' where es': "embed_all embedder D cs' = Some es'"
        and fst: "map fst es' = map fst es"
        by (cases "embed_all embedder D cs'") auto
      have "set (map fst es') = set (map fst es)" using fst by simp
      then have "fst ` set es' = fst ` set es" by simp
      with Some es' ok(1,2) show ?thesis
        by (auto simp: process_documents_def add_documents_def dom_fold_upsert_entry)
    qed
  qed
qed

lemma split_text_short_example: "split_text 4 1 ''abcdefghij'' = [''abcd'', ''defg'', ''ghij'']"
  by code_simp

text \<open>
  C5: in every batch of documents that have an id and a text, ingestion gives
  the \<open>k\<close>-th chunk that the splitter produces for a document (counting from 0)
  the id \<^verbatim>\<open>{id}_chunk_{k}\<close>; ingesting the identical documents a second time leaves
  the index exactly as the first ingestion left it, and ingesting documents with
  the same ids and the same texts leaves the set of chunk ids in the index
  unchanged (no id is added).
\<close>

theorem chunk_ids_and_reingestion:
  "(map doc_id docs = map Some ids \<and> map doc_text docs = map Some texts \<longrightarrow>
      (\<exists>cs. process_loop text_splitter docs = Inr cs
            \<and> map chunk_id cs
                = concat (map (\<lambda>(d, t). map (\<lambda>k. d @ ''_chunk_'' @ str_nat k)
                                           [0..<length (text_splitter t)])
                           (zip ids texts))
            \<and> map chunk_text cs = concat (map text_splitter texts)))
   \<and> fst (snd (process_documents text_splitter embedder D
                 (fst (snd (process_documents text_splitter embedder D idx docs))) docs))
       = fst (snd (process_documents text_splitter embedder D idx docs))
   \<and> (map doc_id docs' = map doc_id docs \<and> map doc_text docs' = map doc_text docs \<longrightarrow>
        dom (fst (snd (process_documents text_splitter embedder D
                 (fst (snd (process_documents text_splitter embedder D idx docs))) docs')))
          = dom (fst (snd (process_documents text_splitter embedder D idx docs))))"
  using process_loop_batch_shape [of docs ids texts text_splitter]
    process_documents_twice [of text_splitter embedder D idx docs]
    reingest_batch_same_keys [of docs' docs text_splitter embedder D idx]
  by blast

theorem chunk_ids_and_reingestion_witness:
  "map doc_id [sample_doc] = map Some [''d1''] \<and> map doc_text [sample_doc] = map Some [''abcdefghij'']
   \<and> (\<exists>cs. process_loop (split_text 4 1) [sample_doc] = Inr cs
          \<and> map chunk_id cs = [''d1_chunk_0'', ''d1_chunk_1'', ''d1_chunk_2'']
          \<and> map chunk_text cs = [''abcd'', ''defg'', ''ghij''])
   \<and> fst (snd (process_documents (split_text 4 1) embed_len 2
                 (fst (snd (process_documents (split_text 4 1) embed_len 2 Map.empty [sample_doc])))
                 [sample_doc]))
       = fst (snd (process_documents (split_text 4 1) embed_len 2 Map.empty [sample_doc]))
   \<and> map doc_id [tagged_doc] = map doc_id [sample_doc]
   \<and> map doc_text [tagged_doc] = map doc_text [sample_doc]
   \<and> dom (fst (snd (process_documents (split_text 4 1) embed_len 2
                 (fst (snd (process_documents (split_text 4 1) embed_len 2 Map.empty [sample_doc])))
                 [tagged_doc])))
       = dom (fst (snd (process_documents (split_text 4 1) embed_len 2 Map.empty [sample_doc])))"
  using chunk_ids_and_reingestion
    [where docs = "[sample_doc]" and ids = "[''d1'']" and texts = "[''abcdefghij'']"
       and text_splitter = "split_text 4 1" and embedder = embed_len and D = 2
       and idx = Map.empty and docs' = "[tagged_doc]"]
    split_text_short_example
  by (simp add: sample_doc_def tagged_doc_def upt_rec str_nat.simps digit_char_def)



section \<open>Properties of the chunk splitter\<close>

lemma trim_window_fits:
  "l \<le> chunk_size \<Longrightarrow> length (concat (trim_window chunk_size overlap l xs)) + l \<le> chunk_size"
proof (induction xs)
  case Nil
  then show ?case by simp
next
  case (Cons x xs)
  let ?total = "length (concat (x # xs))"
  show ?case
  proof (cases "?total > overlap \<or> (?total + l > chunk_size \<and> ?total > 0)")
    case True
    then have "trim_window chunk_size overlap l (x # xs) = trim_window chunk_size overlap l xs"
      by (simp only: trim_window.simps Let_def if_True)
    with Cons show ?thesis by simp
  next
    case False
    then have keep: "trim_window chunk_size overlap l (x # xs) = x # xs"
      by (simp only: trim_window.simps Let_def if_False)
    from False have "?total + l \<le> chunk_size \<or> ?total = 0" by linarith
    with Cons.prems have "?total + l \<le> chunk_size" by linarith
    with keep show ?thesis by simp
  qed
qed

lemma merge_loop_bound:
  assumes "\<forall>d\<in>set ds. length d \<le> chunk_size"
    and "length (concat current) \<le> chunk_size"
  shows "\<forall>c\<in>set (merge_loop chunk_size overlap current ds). length c \<le> chunk_size"
  using assms
proof (induction ds arbitrary: current)
  case Nil
  then show ?case by simp
next
  case (Cons d ds)
  have d: "length d \<le> chunk_size" and ds: "\<forall>d\<in>set ds. length d \<le> chunk_size"
    using Cons.prems(1) by simp_all
  show ?case
  proof (cases "length (concat current) + length d > chunk_size \<and> current \<noteq> []")
    case True
    have "length (concat (trim_window chunk_size overlap (length d) current @ [d])) \<le> chunk_size"
      using trim_window_fits [OF d, of overlap current] by simp
    from Cons.IH [OF ds this] Cons.prems(2) True show ?thesis
      by auto
  next
    case False
    then have "length (concat (current @ [d])) \<le> chunk_size"
      using d by auto
    from Cons.IH [OF ds this] False show ?thesis
      by auto
  qed
qed

lemma merge_splits_bound:
  "\<forall>d\<in>set splits. length d \<le> chunk_size \<Longrightarrow>
   \<forall>c\<in>set (merge_splits chunk_size overlap splits). length c \<le> chunk_size"
  unfolding merge_splits_def by (rule merge_loop_bound) simp_all

lemma pack_segments_bound:
  assumes "\<And>s. \<forall>c\<in>set (finer s). length c \<le> chunk_size"
    and "\<forall>g\<in>set good. length g \<le> chunk_size"
  shows "\<forall>c\<in>set (pack_segments chunk_size overlap finer good ss). length c \<le> chunk_size"
  using assms(2)
proof (induction ss arbitrary: good)
  case Nil
  then show ?case by (simp add: merge_splits_bound)
next
  case (Cons s ss)
  show ?case
  proof (cases "length s \<le> chunk_size")
    case True
    with Cons.prems have "\<forall>g\<in>set (good @ [s]). length g \<le> chunk_size" by simp
    from Cons.IH [OF this] True show ?thesis by simp
  next
    case False
    have "\<forall>c\<in>set (pack_segments chunk_size overlap finer [] ss). length c \<le> chunk_size"
      by (rule Cons.IH) simp
    with False merge_splits_bound [OF Cons.prems, of overlap] assms(1) [of s] show ?thesis
      by auto
  qed
qed

lemma split_rec_bound:
  assumes "0 < chunk_size"
  shows "\<forall>c\<in>set (split_rec chunk_size overlap seps s). length c \<le> chunk_size"
proof (induction seps arbitrary: s)
  case Nil
  have "\<forall>d\<in>set (split_on [] s). length d \<le> chunk_size"
    using assms by (auto simp: split_on_def)
  then show ?case by (simp add: merge_splits_bound)
next
  case (Cons sep seps)
  show ?case
    by (simp, rule pack_segments_bound) (use Cons.IH in simp_all)
qed

text \<open>
  Two further statements of the spec about the splitter hold of the model: a text
  of at most \<open>chunk_size\<close> characters is returned as a single chunk equal to the
  input, and the empty text gives no chunk.
\<close>

lemma concat_split_on_aux: "concat (split_on_aux sep piece s) = piece @ s"
proof (induction sep piece s rule: split_on_aux.induct)
  case (1 sep piece)
  then show ?case by simp
next
  case (2 sep piece c cs)
  show ?case
  proof (cases "sep \<noteq> [] \<and> take (length sep) (c # cs) = sep")
    case True
    then have "concat (split_on_aux sep piece (c # cs))
        = piece @ sep @ drop (length sep) (c # cs)"
      using "2.IH"(1) by simp
    also have "sep @ drop (length sep) (c # cs) = c # cs"
      using True append_take_drop_id [of "length sep" "c # cs"] by simp
    finally show ?thesis .
  next
    case False
    then show ?thesis using "2.IH"(2) by auto
  qed
qed

lemma concat_filter_nonempty: "concat (filter (\<lambda>p. p \<noteq> []) xs) = concat xs"
  by (induction xs) auto

lemma concat_split_on: "concat (split_on sep s) = s"
  by (simp add: split_on_def concat_filter_nonempty concat_split_on_aux concat_map_singleton)

lemma length_segment_le_concat: "x \<in> set xs \<Longrightarrow> length x \<le> length (concat xs)"
  by (induction xs) auto

lemma merge_loop_all_fit:
  "length (concat current) + length (concat ds) \<le> chunk_size \<Longrightarrow>
   merge_loop chunk_size overlap current ds =
     (if concat (current @ ds) = [] then [] else [concat (current @ ds)])"
  by (induction ds arbitrary: current) auto

lemma pack_segments_all_fit:
  "\<forall>s\<in>set ss. length s \<le> chunk_size \<Longrightarrow>
   pack_segments chunk_size overlap finer good ss = merge_splits chunk_size overlap (good @ ss)"
  by (induction ss arbitrary: good) auto

lemma split_rec_short:
  assumes "length s \<le> chunk_size"
  shows "split_rec chunk_size overlap seps s = (if s = [] then [] else [s])"
proof -
  have fit: "merge_splits chunk_size overlap (split_on sep s) = (if s = [] then [] else [s])"
    for sep
    using assms merge_loop_all_fit [of "[]" "split_on sep s" chunk_size overlap]
    by (simp add: merge_splits_def concat_split_on)
  show ?thesis
  proof (cases seps)
    case Nil
    then show ?thesis by (simp add: fit)
  next
    case (Cons sep seps')
    have "\<forall>x\<in>set (split_on sep s). length x \<le> chunk_size"
      using length_segment_le_concat [of _ "split_on sep s"] assms
      by (fastforce simp: concat_split_on)
    then show ?thesis
      by (simp add: Cons pack_segments_all_fit fit)
  qed
qed

lemma split_text_short:
  "length s \<le> chunk_size \<Longrightarrow> split_text chunk_size overlap s = (if s = [] then [] else [s])"
  unfolding split_text_def by (rule split_rec_short)

lemma split_text_example:
  "split_text 10 3 ''the quick brownfoxjumpsover the lazy dog''
     = [''the quick'', '' brownfoxj'', ''oxjumpsove'', ''over'', '' the lazy'', '' dog'']"
  by code_simp

text \<open>
  C8: for every input text and valid parameters (\<open>chunk_size > 0\<close>,
  \<open>overlap < chunk_size\<close>), every chunk produced by the splitter has at most
  \<open>chunk_size\<close> characters.
\<close>

theorem split_text_size_bound:
  assumes "0 < chunk_size" and "overlap < chunk_size"
  shows "\<forall>c\<in>set (split_text chunk_size overlap s). length c \<le> chunk_size"
  unfolding split_text_def using assms(1) by (rule split_rec_bound)

theorem split_text_size_bound_witness:
  "(0::nat) < 10 \<and> (3::nat) < 10
   \<and> list_all (\<lambda>c. length c \<le> 10) (split_text 10 3 ''the quick brownfoxjumpsover the lazy dog'')
   \<and> split_text 10 3 ''the quick brownfoxjumpsover the lazy dog''
       = [''the quick'', '' brownfoxj'', ''oxjumpsove'', ''over'', '' the lazy'', '' dog'']"
  using split_text_size_bound [of 10 3 "''the quick brownfoxjumpsover the lazy dog''"]
    split_text_example
  by (simp add: list_all_iff)

end
